theory Spec2Isabelle
  imports Complex_Main "HOL-Library.Word"
begin

section \<open>Line follower for the Zumo 32U4: the control loop of kdh\_line.ino\<close>

text \<open>
  The sketch keeps three globals that the control loop reads and writes (\<open>pause\<close>,
  \<open>desired_lin_speed\<close>, \<open>rot_gain\<close>), reads a line position once per cycle, turns
  it into a rotational speed, and hands a (linear, rotational) pair to
  \<open>setLinRotSpeeds\<close>, which computes the two track speeds and passes them to the
  motor driver.

  Number types. In the model of the control loop the sketch's \<open>float\<close> values are
  idealised as \<open>real\<close>: every \<open>+\<close>, \<open>-\<close> and \<open>*\<close> on a \<open>float\<close> is the exact
  operation, without rounding, overflow to infinity or NaN. The \<open>int\<close> of the target
  (16 bits, two's complement) is a \<open>16 word\<close> read with \<open>sint\<close>. The track speeds of
  lines 69 to 93 are modelled a second time in binary32 arithmetic, rounding included, for
  the two properties that depend on the arithmetic being exact.
\<close>

subsection \<open>Track speeds: lines 69 to 93\<close>

text \<open>
  The four outer branches of the \<open>if\<close>/\<open>else if\<close> chain, named after their
  conditions: \<open>left_speed > 400\<close>, \<open>right_speed > 400\<close>, \<open>left_speed < -400\<close>,
  \<open>right_speed < -400\<close>.
\<close>

datatype clamp_case = LeftOver | RightOver | LeftUnder | RightUnder

text \<open>
  The two locals of \<open>setLinRotSpeeds\<close>, together with three observation fields that
  the code neither has nor reads; they record which statements ran:
  \<^item> \<open>fired\<close>: the outer branches whose body was entered, in order;
  \<^item> \<open>shifted\<close>: the value the other side received from the shift statement of that
    body (lines 75, 79, 83, 87), before the inner \<open>if\<close>;
  \<^item> \<open>reclamped\<close>: whether the body of the inner \<open>if\<close> (lines 76, 80, 84, 88) ran.
\<close>

record allocation =
  left_speed :: real
  right_speed :: real
  fired :: "clamp_case list"
  shifted :: "real option"
  reclamped :: bool

text \<open>Lines 70 to 90: the values of the two locals when \<open>motors.setSpeeds\<close> is called.\<close>

definition setLinRotSpeeds_speeds :: "real \<Rightarrow> real \<Rightarrow> allocation" where
  "setLinRotSpeeds_speeds lin_speed rot_speed =
     (let s0 = \<lparr>left_speed = lin_speed - rot_speed,
                right_speed = lin_speed + rot_speed,
                fired = [], shifted = None, reclamped = False\<rparr>
      in if left_speed s0 > 400 then
           (let s1 = s0\<lparr>right_speed := right_speed s0 - (left_speed s0 - 400),
                        fired := fired s0 @ [LeftOver]\<rparr>;
                s2 = s1\<lparr>shifted := Some (right_speed s1)\<rparr>;
                s3 = (if right_speed s2 < - 400
                      then s2\<lparr>right_speed := - 400, reclamped := True\<rparr> else s2)
            in s3\<lparr>left_speed := 400\<rparr>)
         else if right_speed s0 > 400 then
           (let s1 = s0\<lparr>left_speed := left_speed s0 - (right_speed s0 - 400),
                        fired := fired s0 @ [RightOver]\<rparr>;
                s2 = s1\<lparr>shifted := Some (left_speed s1)\<rparr>;
                s3 = (if left_speed s2 < - 400
                      then s2\<lparr>left_speed := - 400, reclamped := True\<rparr> else s2)
            in s3\<lparr>right_speed := 400\<rparr>)
         else if left_speed s0 < - 400 then
           (let s1 = s0\<lparr>right_speed := right_speed s0 - (left_speed s0 + 400),
                        fired := fired s0 @ [LeftUnder]\<rparr>;
                s2 = s1\<lparr>shifted := Some (right_speed s1)\<rparr>;
                s3 = (if right_speed s2 > 400
                      then s2\<lparr>right_speed := 400, reclamped := True\<rparr> else s2)
            in s3\<lparr>left_speed := - 400\<rparr>)
         else if right_speed s0 < - 400 then
           (let s1 = s0\<lparr>left_speed := left_speed s0 - (right_speed s0 + 400),
                        fired := fired s0 @ [RightUnder]\<rparr>;
                s2 = s1\<lparr>shifted := Some (left_speed s1)\<rparr>;
                s3 = (if left_speed s2 > 400
                      then s2\<lparr>left_speed := 400, reclamped := True\<rparr> else s2)
            in s3\<lparr>right_speed := - 400\<rparr>)
         else s0)"

subsection \<open>The globals and one control cycle: lines 24 to 28 and 118 to 161\<close>

text \<open>
  \<open>motors\<close> is the effect of \<open>motors.setSpeeds\<close>: the last pair of arguments it was
  called with, \<open>None\<close> before the first call. The driver class is a library outside the
  sketch; its parameters are 16-bit integers, so the conversion of the two \<open>float\<close>
  arguments happens on its side of the call and is not part of this model. The display
  and the calibration data of the sensors are written by the loop but never read back by
  it, and are left out. \<open>setup\<close> (lines 95 to 116) writes none of the three globals.
\<close>

record robot =
  pause :: bool
  desired_lin_speed :: real
  rot_gain :: real
  motors :: "(real \<times> real) option"

text \<open>The initialisers of lines 24, 27 and 28.\<close>

definition init :: robot where
  "init = \<lparr>pause = True, desired_lin_speed = 100, rot_gain = 0.1, motors = None\<rparr>"

text \<open>Lines 69 to 93 as a whole: compute the two speeds, then call the driver.\<close>

definition setLinRotSpeeds :: "real \<Rightarrow> real \<Rightarrow> robot \<Rightarrow> robot" where
  "setLinRotSpeeds lin_speed rot_speed g =
     (let s = setLinRotSpeeds_speeds lin_speed rot_speed
      in g\<lparr>motors := Some (left_speed s, right_speed s)\<rparr>)"

text \<open>
  What one cycle reads from outside: the result of \<open>line_sensors.readLine\<close>, stored in
  an \<open>int\<close>, and the answers of the three \<open>getSingleDebouncedPress\<close> polls.
\<close>

record cycle_input =
  line_position :: "16 word"
  press_a :: bool
  press_b :: bool
  press_c :: bool

text \<open>
  Line 124: \<open>rot_gain * -(line_position - 2000)\<close>. The subtraction and the negation
  are 16-bit integer operations; the result is converted to \<open>float\<close> for the product.
\<close>

definition rot_speed_of :: "real \<Rightarrow> 16 word \<Rightarrow> real" where
  "rot_speed_of gain p = gain * real_of_int (sint (- (p - 2000)))"

text \<open>Lines 124 to 130: the pair of arguments of the call of \<open>setLinRotSpeeds\<close>.\<close>

definition velocity_command :: "robot \<Rightarrow> 16 word \<Rightarrow> real \<times> real" where
  "velocity_command g p =
     (let rot_speed = rot_speed_of (rot_gain g) p;
          lin_speed = desired_lin_speed g
      in if pause g then (0, 0) else (lin_speed, rot_speed))"

text \<open>Lines 118 to 161, without the display.\<close>

definition loop :: "cycle_input \<Rightarrow> robot \<Rightarrow> robot" where
  "loop inp g =
     (let cmd = velocity_command g (line_position inp);
          g1 = setLinRotSpeeds (fst cmd) (snd cmd) g;
          g2 = (if press_a inp then g1\<lparr>pause := \<not> pause g1\<rparr> else g1);
          g3 = (if press_b inp
                then g2\<lparr>desired_lin_speed := desired_lin_speed g2 * 0.9\<rparr> else g2);
          g4 = (if press_c inp
                then g3\<lparr>desired_lin_speed := desired_lin_speed g3 * 1.1\<rparr> else g3)
      in g4)"

text \<open>The loop run for a finite number of cycles, one input per cycle.\<close>

fun run :: "cycle_input list \<Rightarrow> robot \<Rightarrow> robot" where
  "run [] g = g"
| "run (inp # inps) g = run inps (loop inp g)"

text \<open>
  A run that the loop can really make from the initial globals: seventeen cycles with
  the increase-speed button pressed (the last of them with the pause button too, which
  starts the robot), then one cycle with the line at position 1000.
\<close>

definition overspeed_run :: "cycle_input list" where
  "overspeed_run =
     replicate 16 \<lparr>line_position = 2000, press_a = False, press_b = False, press_c = True\<rparr>
     @ [\<lparr>line_position = 2000, press_a = True, press_b = False, press_c = True\<rparr>,
        \<lparr>line_position = 1000, press_a = False, press_b = False, press_c = False\<rparr>]"

subsection \<open>Track speeds in binary32 arithmetic: lines 69 to 93 again\<close>

text \<open>
  The target's \<open>float\<close> is the IEEE 754 binary32 format: a finite value is an integer
  multiple \<open>k * q\<close> of a power of two \<open>q\<close> with \<open>\<bar>k\<bar> < 2 ^ 24\<close> and
  \<open>2 ^ -149 \<le> q \<le> 2 ^ 104\<close>; results are rounded to the nearest such value, ties to
  the even multiple, and become infinite from \<open>2 ^ 128\<close> on. \<open>Fin x\<close> stands for the
  finite value \<open>x\<close>; the two zeros are not told apart, since lines 69 to 93 only add,
  subtract and compare.
\<close>

datatype float32 = Fin real | PInf | NInf | NaN

text \<open>Rounding to the nearest integer, ties to even.\<close>

definition rne :: "real \<Rightarrow> int" where
  "rne x = (let f = \<lfloor>x\<rfloor>
            in if x - of_int f < 1 / 2 then f
               else if x - of_int f > 1 / 2 then f + 1
               else if even f then f else f + 1)"

text \<open>
  The spacing of the binary32 values around a magnitude \<open>m\<close>: \<open>2 ^ -23\<close> on [1, 2),
  doubled for every binade above up to \<open>2 ^ 104\<close>, halved for every binade below down to
  \<open>2 ^ -149\<close>, the spacing of the subnormal values.
\<close>

fun quantum_up :: "nat \<Rightarrow> real \<Rightarrow> real \<Rightarrow> real" where
  "quantum_up 0 q m = q"
| "quantum_up (Suc n) q m = (if m < q * 2 ^ 24 then q else quantum_up n (2 * q) m)"

fun quantum_down :: "nat \<Rightarrow> real \<Rightarrow> real \<Rightarrow> real" where
  "quantum_down 0 q m = q"
| "quantum_down (Suc n) q m = (if q * 2 ^ 23 \<le> m then q else quantum_down n (q / 2) m)"

definition quantum :: "real \<Rightarrow> real" where
  "quantum m = (if 1 \<le> m then quantum_up 127 (1 / 2 ^ 23) m
                else quantum_down 126 (1 / 2 ^ 23) m)"

text \<open>The binary32 value of an exact result \<open>x\<close>.\<close>

definition round32 :: "real \<Rightarrow> float32" where
  "round32 x = (let q = quantum \<bar>x\<bar>; r = of_int (rne (x / q)) * q
                in if r \<ge> 2 ^ 128 then PInf else if r \<le> - (2 ^ 128) then NInf else Fin r)"

fun fneg :: "float32 \<Rightarrow> float32" where
  "fneg (Fin a) = Fin (- a)"
| "fneg PInf = NInf"
| "fneg NInf = PInf"
| "fneg NaN = NaN"

fun fadd :: "float32 \<Rightarrow> float32 \<Rightarrow> float32" where
  "fadd (Fin a) (Fin b) = round32 (a + b)"
| "fadd NaN _ = NaN"
| "fadd _ NaN = NaN"
| "fadd PInf NInf = NaN"
| "fadd NInf PInf = NaN"
| "fadd PInf _ = PInf"
| "fadd _ PInf = PInf"
| "fadd NInf _ = NInf"
| "fadd _ NInf = NInf"

definition fsub :: "float32 \<Rightarrow> float32 \<Rightarrow> float32" where
  "fsub a b = fadd a (fneg b)"

text \<open>The comparisons \<open><\<close> and \<open>>\<close>: false as soon as one side is NaN.\<close>

fun flt :: "float32 \<Rightarrow> float32 \<Rightarrow> bool" where
  "flt (Fin a) (Fin b) = (a < b)"
| "flt NaN _ = False"
| "flt _ NaN = False"
| "flt _ NInf = False"
| "flt PInf _ = False"
| "flt NInf _ = True"
| "flt _ PInf = True"

definition fgt :: "float32 \<Rightarrow> float32 \<Rightarrow> bool" where
  "fgt a b = flt b a"

text \<open>
  Lines 70 to 90 statement by statement; the result is the pair
  \<open>(left_speed, right_speed)\<close> of line 92. The integer constants 400 and -400 are
  converted to \<open>float\<close> without rounding.
\<close>

definition setLinRotSpeeds_binary32 :: "float32 \<Rightarrow> float32 \<Rightarrow> float32 \<times> float32" where
  "setLinRotSpeeds_binary32 lin_speed rot_speed =
     (let left_speed = fsub lin_speed rot_speed;
          right_speed = fadd lin_speed rot_speed
      in if fgt left_speed (Fin 400) then
           (let right_speed = fsub right_speed (fsub left_speed (Fin 400));
                right_speed = (if flt right_speed (Fin (- 400)) then Fin (- 400)
                               else right_speed);
                left_speed = Fin 400
            in (left_speed, right_speed))
         else if fgt right_speed (Fin 400) then
           (let left_speed = fsub left_speed (fsub right_speed (Fin 400));
                left_speed = (if flt left_speed (Fin (- 400)) then Fin (- 400)
                              else left_speed);
                right_speed = Fin 400
            in (left_speed, right_speed))
         else if flt left_speed (Fin (- 400)) then
           (let right_speed = fsub right_speed (fadd left_speed (Fin 400));
                right_speed = (if fgt right_speed (Fin 400) then Fin 400 else right_speed);
                left_speed = Fin (- 400)
            in (left_speed, right_speed))
         else if flt right_speed (Fin (- 400)) then
           (let left_speed = fsub left_speed (fadd right_speed (Fin 400));
                left_speed = (if fgt left_speed (Fin 400) then Fin 400 else left_speed);
                right_speed = Fin (- 400)
            in (left_speed, right_speed))
         else (left_speed, right_speed))"

text \<open>\<open>v\<close> is a binary32 value: rounding leaves it as it is.\<close>

definition exact32 :: "real \<Rightarrow> bool" where
  "exact32 v = (round32 v = Fin v)"

text \<open>
  No addition or subtraction that lines 70 to 90 execute on \<open>(x, y)\<close> rounds: the two of
  lines 70 and 71, and the two of the shift statement of the branch taken.
\<close>

definition no_rounding :: "real \<Rightarrow> real \<Rightarrow> bool" where
  "no_rounding x y =
     (exact32 (x - y) \<and> exact32 (x + y) \<and>
      (if x - y > 400 then exact32 (x - y - 400) \<and> exact32 (x + y - (x - y - 400))
       else if x + y > 400 then exact32 (x + y - 400) \<and> exact32 (x - y - (x + y - 400))
       else if x - y < - 400 then exact32 (x - y + 400) \<and> exact32 (x + y - (x - y + 400))
       else if x + y < - 400 then exact32 (x + y + 400) \<and> exact32 (x - y - (x + y + 400))
       else True))"

section \<open>Properties of the track speeds\<close>

lemma speeds_nominal:
  assumes "\<not> lin - rot > 400" "\<not> lin + rot > 400" "\<not> lin - rot < - 400" "\<not> lin + rot < - 400"
  shows "setLinRotSpeeds_speeds lin rot =
           \<lparr>left_speed = lin - rot, right_speed = lin + rot,
            fired = [], shifted = None, reclamped = False\<rparr>"
  using assms by (simp add: setLinRotSpeeds_speeds_def)

lemma fired_first_match:
  "fired (setLinRotSpeeds_speeds lin rot) =
     (if lin - rot > 400 then [LeftOver]
      else if lin + rot > 400 then [RightOver]
      else if lin - rot < - 400 then [LeftUnder]
      else if lin + rot < - 400 then [RightUnder]
      else [])"
  by (simp add: setLinRotSpeeds_speeds_def Let_def)

text \<open>
  C1. The claim is that both speeds passed to the driver lie in [-400, 400] for every
  input. The code does not do that: at \<open>lin = 1000\<close>, \<open>rot = 100\<close> the nominal pair
  is (900, 1100), the branch \<open>left_speed > 400\<close> is taken, the right side is shifted to
  600 and only compared with -400, so the pair passed on is (400, 600). The loop reaches
  such a call: after \<open>overspeed_run\<close> the last pair handed to the driver is (400, 600).
\<close>

theorem right_speed_exceeds_limit:
  "left_speed (setLinRotSpeeds_speeds 1000 100) = 400
 \<and> right_speed (setLinRotSpeeds_speeds 1000 100) = 600
 \<and> fired (setLinRotSpeeds_speeds 1000 100) = [LeftOver]
 \<and> \<not> reclamped (setLinRotSpeeds_speeds 1000 100)
 \<and> motors (run overspeed_run init) = Some (400, 600)"
  by (simp add: overspeed_run_def eval_nat_numeral init_def loop_def velocity_command_def
      setLinRotSpeeds_def setLinRotSpeeds_speeds_def rot_speed_of_def Let_def)

text \<open>
  C3. When both nominal values \<open>lin - rot\<close> and \<open>lin + rot\<close> lie in [-400, 400] the
  two speeds passed to the driver are exactly these values, and no branch body runs.
\<close>

theorem nominal_unchanged:
  assumes "- 400 \<le> lin - rot" "lin - rot \<le> 400" "- 400 \<le> lin + rot" "lin + rot \<le> 400"
  shows "left_speed (setLinRotSpeeds_speeds lin rot) = lin - rot
       \<and> right_speed (setLinRotSpeeds_speeds lin rot) = lin + rot
       \<and> fired (setLinRotSpeeds_speeds lin rot) = []
       \<and> motors (setLinRotSpeeds lin rot g) = Some (lin - rot, lin + rot)"
proof -
  have "setLinRotSpeeds_speeds lin rot =
           \<lparr>left_speed = lin - rot, right_speed = lin + rot,
            fired = [], shifted = None, reclamped = False\<rparr>"
    using assms by (intro speeds_nominal) simp_all
  then show ?thesis by (simp add: setLinRotSpeeds_def)
qed

theorem nominal_unchanged_witness:
  "- 400 \<le> (100::real) - 50 \<and> (100::real) - 50 \<le> 400
 \<and> - 400 \<le> (100::real) + 50 \<and> (100::real) + 50 \<le> 400
 \<and> left_speed (setLinRotSpeeds_speeds 100 50) = 50
 \<and> right_speed (setLinRotSpeeds_speeds 100 50) = 150
 \<and> fired (setLinRotSpeeds_speeds 100 50) = []
 \<and> motors (setLinRotSpeeds 100 50 init) = Some (50, 150)"
  using nominal_unchanged [of 100 50 init] by simp

text \<open>
  C4. The four conditions are tried in the order \<open>left > 400\<close>, \<open>right > 400\<close>,
  \<open>left < -400\<close>, \<open>right < -400\<close> on the nominal pair; the first that holds decides
  which body runs, and never more than one body runs. At \<open>lin = 0\<close>, \<open>rot = 500\<close>
  the nominal pair is (-500, 500), where the second and the third condition both hold:
  the body of \<open>right > 400\<close> runs, the left side is shifted to -600 and then set to
  -400 by the inner \<open>if\<close>, and the pair passed to the driver is (-400, 400).
\<close>

theorem first_match_wins:
  "fired (setLinRotSpeeds_speeds lin rot) =
     (if lin - rot > 400 then [LeftOver]
      else if lin + rot > 400 then [RightOver]
      else if lin - rot < - 400 then [LeftUnder]
      else if lin + rot < - 400 then [RightUnder]
      else [])
 \<and> length (fired (setLinRotSpeeds_speeds lin rot)) \<le> 1
 \<and> (0::real) + 500 > 400 \<and> (0::real) - 500 < - 400
 \<and> setLinRotSpeeds_speeds 0 500 =
      \<lparr>left_speed = - 400, right_speed = 400,
       fired = [RightOver], shifted = Some (- 600), reclamped = True\<rparr>
 \<and> motors (setLinRotSpeeds 0 500 g) = Some (- 400, 400)"
proof -
  have "setLinRotSpeeds_speeds 0 500 =
      \<lparr>left_speed = - 400, right_speed = 400,
       fired = [RightOver], shifted = Some (- 600), reclamped = True\<rparr>"
    by (simp add: setLinRotSpeeds_speeds_def Let_def)
  then show ?thesis
    by (simp add: fired_first_match setLinRotSpeeds_def)
qed

text \<open>
  C8. The pair that \<open>setLinRotSpeeds\<close> hands to the driver depends on its two
  arguments only: started from any two states of the globals it hands over the same pair,
  namely the one computed from \<open>lin\<close> and \<open>rot\<close>, and it leaves the three globals as
  they were.
\<close>

theorem allocator_reads_no_state:
  "motors (setLinRotSpeeds lin rot g) = motors (setLinRotSpeeds lin rot g')
 \<and> motors (setLinRotSpeeds lin rot g) =
     Some (left_speed (setLinRotSpeeds_speeds lin rot),
           right_speed (setLinRotSpeeds_speeds lin rot))
 \<and> pause (setLinRotSpeeds lin rot g) = pause g
 \<and> desired_lin_speed (setLinRotSpeeds lin rot g) = desired_lin_speed g
 \<and> rot_gain (setLinRotSpeeds lin rot g) = rot_gain g"
  by (simp add: setLinRotSpeeds_def Let_def)

section \<open>Properties of the control cycle\<close>

lemma sint_position_minus_centre:
  fixes p :: "16 word"
  assumes "0 \<le> sint p" "sint p \<le> 4000"
  shows "sint (p - 2000) = sint p - 2000"
proof -
  have "sint (p - 2000) = signed_take_bit 15 (sint p - 2000)"
    by (simp add: sint_word_diff)
  also have "\<dots> = sint p - 2000"
    using assms by (intro signed_take_bit_int_eq_self) simp_all
  finally show ?thesis .
qed

lemma sint_negated_offset:
  fixes p :: "16 word"
  assumes "0 \<le> sint p" "sint p \<le> 4000"
  shows "sint (- (p - 2000)) = 2000 - sint p"
proof -
  have "sint (- (p - 2000)) = signed_take_bit (LENGTH(16) - 1) (- sint (p - 2000))"
    by (rule sint_word_minus)
  also have "\<dots> = signed_take_bit 15 (2000 - sint p)"
    using assms by (simp add: sint_position_minus_centre)
  also have "\<dots> = 2000 - sint p"
    using assms by (intro signed_take_bit_int_eq_self) simp_all
  finally show ?thesis .
qed

lemma rot_speed_in_range:
  assumes "0 \<le> sint p" "sint p \<le> 4000"
  shows "rot_speed_of g p = g * - (real_of_int (sint p) - 2000)"
proof -
  have "sint (- (p - 2000)) = 2000 - sint p"
    using assms by (rule sint_negated_offset)
  then have "rot_speed_of g p = g * real_of_int (2000 - sint p)"
    unfolding rot_speed_of_def by (simp only:)
  then show ?thesis by simp
qed

lemma loop_operator_state:
  "pause (loop inp g) = (if press_a inp then \<not> pause g else pause g)"
  "desired_lin_speed (loop inp g) =
     desired_lin_speed g * (if press_b inp then 0.9 else 1) * (if press_c inp then 1.1 else 1)"
  "rot_gain (loop inp g) = rot_gain g"
  by (simp_all add: loop_def Let_def setLinRotSpeeds_def)

lemma loop_speed_positive:
  "0 < desired_lin_speed g \<Longrightarrow> 0 < desired_lin_speed (loop inp g)"
  by (simp add: loop_operator_state)

lemma run_speed_positive:
  "0 < desired_lin_speed g \<Longrightarrow> 0 < desired_lin_speed (run inps g)"
  by (induction inps arbitrary: g) (simp_all add: loop_speed_positive)

text \<open>
  C5. For a line position \<open>p\<close> in [0, 4000] and a gain \<open>g\<close>, line 124 computes
  \<open>g * -(p - 2000)\<close>: the 16-bit subtraction and negation do not wrap there. In
  particular the centre 2000 gives 0 for every gain, and with gain 0.1 position 0 gives
  200 and position 4000 gives -200.
\<close>

theorem steering_law:
  "(0 \<le> sint p \<and> sint p \<le> 4000 \<longrightarrow>
      rot_speed_of g p = g * - (real_of_int (sint p) - 2000))
 \<and> rot_speed_of g 2000 = 0
 \<and> rot_speed_of 0.1 0 = 200
 \<and> rot_speed_of 0.1 4000 = - 200"
  by (simp add: rot_speed_in_range)

theorem steering_law_witness:
  "0 \<le> sint (1000 :: 16 word) \<and> sint (1000 :: 16 word) \<le> 4000
 \<and> rot_speed_of 0.1 1000 = 100"
  using steering_law [of 1000 "0.1"] by simp

text \<open>
  C6. In a cycle that starts with \<open>pause\<close> set, the pair of arguments of the call of
  \<open>setLinRotSpeeds\<close> is (0, 0), whatever the line position, the gain and the desired
  speed are; the cycle hands to the driver what \<open>setLinRotSpeeds(0, 0)\<close> hands over.
\<close>

theorem paused_command_is_zero:
  assumes "pause g"
  shows "velocity_command g p = (0, 0)
       \<and> motors (loop inp g) = motors (setLinRotSpeeds 0 0 g)"
  using assms by (simp add: velocity_command_def loop_def Let_def setLinRotSpeeds_def)

theorem paused_command_is_zero_witness:
  "pause init
 \<and> rot_speed_of (rot_gain init) 0 = 200
 \<and> velocity_command init 0 = (0, 0)
 \<and> motors (loop \<lparr>line_position = 0, press_a = True, press_b = False, press_c = True\<rparr> init)
     = motors (setLinRotSpeeds 0 0 init)"
proof -
  have p: "pause init" by (simp add: init_def)
  have r: "rot_speed_of (rot_gain init) 0 = 200" by (simp add: init_def rot_speed_of_def)
  show ?thesis using paused_command_is_zero [OF p] p r by simp
qed

text \<open>
  C7. At process start \<open>pause\<close> is true and the desired linear speed is 100. One
  cycle changes these two globals only through the three button polls: a press of A
  negates \<open>pause\<close>, a press of B multiplies the desired speed by 0.9, a press of C
  multiplies it by 1.1 (B before C when both are pressed in one cycle); without a press
  they keep their values. The call of \<open>setLinRotSpeeds\<close> changes neither.
\<close>

theorem operator_state_updates:
  "pause init = True
 \<and> desired_lin_speed init = 100
 \<and> pause (loop inp g) = (if press_a inp then \<not> pause g else pause g)
 \<and> desired_lin_speed (loop inp g) =
     desired_lin_speed g * (if press_b inp then 0.9 else 1) * (if press_c inp then 1.1 else 1)
 \<and> pause (setLinRotSpeeds lin rot g) = pause g
 \<and> desired_lin_speed (setLinRotSpeeds lin rot g) = desired_lin_speed g"
  by (simp add: loop_operator_state) (simp add: init_def setLinRotSpeeds_def Let_def)

text \<open>
  C9. After any finite number of cycles from process start, with any inputs, the
  desired linear speed is strictly positive; so the linear speed of the command is 0 while
  paused and strictly positive otherwise, never negative.
\<close>

theorem desired_speed_positive:
  "0 < desired_lin_speed (run inps init)
 \<and> fst (velocity_command (run inps init) p) =
     (if pause (run inps init) then 0 else desired_lin_speed (run inps init))
 \<and> 0 \<le> fst (velocity_command (run inps init) p)"
proof -
  have "0 < desired_lin_speed init" by (simp add: init_def)
  then have pos: "0 < desired_lin_speed (run inps init)" by (rule run_speed_positive)
  then show ?thesis by (simp add: velocity_command_def Let_def)
qed

section \<open>Properties of the track speeds in binary32 arithmetic\<close>

lemma quantum_up_numeral:
  "quantum_up (numeral k) q m =
     (if m < q * 2 ^ 24 then q else quantum_up (pred_numeral k) (2 * q) m)"
  by (simp add: numeral_eq_Suc)

lemma quantum_down_numeral:
  "quantum_down (numeral k) q m =
     (if q * 2 ^ 23 \<le> m then q else quantum_down (pred_numeral k) (q / 2) m)"
  by (simp add: numeral_eq_Suc)

lemmas binary32_eval =
  round32_def quantum_def quantum_up_numeral quantum_down_numeral rne_def Let_def
  fsub_def fgt_def exact32_def

lemma round32_400: "round32 400 = Fin 400" "round32 (- 400) = Fin (- 400)"
  by (simp_all add: binary32_eval)

lemma round32_exact: "exact32 v \<Longrightarrow> round32 v = Fin v"
  by (simp add: exact32_def)

lemma fadd_exact: "exact32 (a + b) \<Longrightarrow> fadd (Fin a) (Fin b) = Fin (a + b)"
  by (simp add: exact32_def)

lemma fsub_exact: "exact32 (a - b) \<Longrightarrow> fsub (Fin a) (Fin b) = Fin (a - b)"
  by (simp add: exact32_def fsub_def)

text \<open>Where nothing rounds, the binary32 computation is the exact one.\<close>

lemma binary32_agrees_without_rounding:
  assumes ex: "no_rounding x y"
  shows "setLinRotSpeeds_binary32 (Fin x) (Fin y) =
           (Fin (left_speed (setLinRotSpeeds_speeds x y)),
            Fin (right_speed (setLinRotSpeeds_speeds x y)))"
proof -
  have l0: "fsub (Fin x) (Fin y) = Fin (x - y)" and r0: "fadd (Fin x) (Fin y) = Fin (x + y)"
    using ex by (simp_all add: no_rounding_def fsub_def round32_exact)
  note [simp del] = fadd.simps
  note defs = setLinRotSpeeds_binary32_def setLinRotSpeeds_speeds_def fgt_def Let_def
  consider (lo) "x - y > 400"
    | (ro) "\<not> x - y > 400" "x + y > 400"
    | (lu) "\<not> x - y > 400" "\<not> x + y > 400" "x - y < - 400"
    | (ru) "\<not> x - y > 400" "\<not> x + y > 400" "\<not> x - y < - 400" "x + y < - 400"
    | (no) "\<not> x - y > 400" "\<not> x + y > 400" "\<not> x - y < - 400" "\<not> x + y < - 400"
    by blast
  then show ?thesis
  proof cases
    case lo
    then have e: "exact32 (x - y - 400)" "exact32 (x + y - (x - y - 400))"
      using ex by (simp_all add: no_rounding_def)
    have "fsub (Fin (x + y)) (fsub (Fin (x - y)) (Fin 400)) = Fin (x + y - (x - y - 400))"
      using e by (simp only: fsub_exact)
    then show ?thesis using lo by (simp add: defs l0 r0)
  next
    case ro
    then have e: "exact32 (x + y - 400)" "exact32 (x - y - (x + y - 400))"
      using ex by (simp_all add: no_rounding_def)
    have "fsub (Fin (x - y)) (fsub (Fin (x + y)) (Fin 400)) = Fin (x - y - (x + y - 400))"
      using e by (simp only: fsub_exact)
    then show ?thesis using ro by (simp add: defs l0 r0)
  next
    case lu
    then have e: "exact32 (x - y + 400)" "exact32 (x + y - (x - y + 400))"
      using ex by (simp_all add: no_rounding_def)
    have "fsub (Fin (x + y)) (fadd (Fin (x - y)) (Fin 400)) = Fin (x + y - (x - y + 400))"
      using e by (simp only: fsub_exact fadd_exact)
    then show ?thesis using lu by (simp add: defs l0 r0)
  next
    case ru
    then have e: "exact32 (x + y + 400)" "exact32 (x - y - (x + y + 400))"
      using ex by (simp_all add: no_rounding_def)
    have "fsub (Fin (x - y)) (fadd (Fin (x + y)) (Fin 400)) = Fin (x - y - (x + y + 400))"
      using e by (simp only: fsub_exact fadd_exact)
    then show ?thesis using ru by (simp add: defs l0 r0)
  next
    case no
    then show ?thesis by (simp add: defs l0 r0)
  qed
qed

lemma exact_rotation_or_limits:
  assumes fires: "x - y > 400 \<or> x + y > 400 \<or> x - y < - 400 \<or> x + y < - 400"
    and ns1: "\<not> (x - y > 400 \<and> y > 0)"
    and ns2: "\<not> (x - y < - 400 \<and> y < 0)"
  shows "if \<bar>y\<bar> > 400
         then (left_speed (setLinRotSpeeds_speeds x y) = 400
                 \<and> right_speed (setLinRotSpeeds_speeds x y) = - 400)
            \<or> (left_speed (setLinRotSpeeds_speeds x y) = - 400
                 \<and> right_speed (setLinRotSpeeds_speeds x y) = 400)
         else right_speed (setLinRotSpeeds_speeds x y)
                - left_speed (setLinRotSpeeds_speeds x y) = 2 * y"
proof -
  note defs = setLinRotSpeeds_speeds_def Let_def
  consider (lo) "x - y > 400" "y \<le> 0"
    | (ro) "\<not> x - y > 400" "x + y > 400" "y > 0"
    | (lu) "\<not> x - y > 400" "\<not> x + y > 400" "x - y < - 400" "y \<ge> 0"
    | (ru) "\<not> x - y > 400" "\<not> x + y > 400" "\<not> x - y < - 400" "x + y < - 400" "y < 0"
    using assms by linarith
  then show ?thesis
  proof cases
    case lo
    then show ?thesis by (simp add: defs)
  next
    case ro
    then show ?thesis by (simp add: defs)
  next
    case lu
    then show ?thesis by (simp add: defs)
  next
    case ru
    then show ?thesis by (simp add: defs)
  qed
qed

text \<open>The shape of the spacing found by the two searches.\<close>

lemma rne_of_int: "rne (of_int z) = z"
  by (simp add: rne_def)

lemma quantum_up_shape:
  "\<exists>j\<le>n. quantum_up n q m = q * 2 ^ j
          \<and> (0 < j \<longrightarrow> q * 2 ^ j * 2 ^ 23 \<le> m)
          \<and> (j < n \<longrightarrow> m < q * 2 ^ j * 2 ^ 24)"
proof (induction n arbitrary: q)
  case 0
  show ?case by simp
next
  case (Suc n)
  show ?case
  proof (cases "m < q * 2 ^ 24")
    case True
    then have "quantum_up (Suc n) q m = q * 2 ^ 0 \<and> (0 < (0::nat) \<longrightarrow> q * 2 ^ 0 * 2 ^ 23 \<le> m)
        \<and> ((0::nat) < Suc n \<longrightarrow> m < q * 2 ^ 0 * 2 ^ 24)"
      by simp
    then show ?thesis by blast
  next
    case False
    from Suc.IH [of "2 * q"] obtain j where j: "j \<le> n"
      "quantum_up n (2 * q) m = 2 * q * 2 ^ j"
      "0 < j \<longrightarrow> 2 * q * 2 ^ j * 2 ^ 23 \<le> m"
      "j < n \<longrightarrow> m < 2 * q * 2 ^ j * 2 ^ 24"
      by blast
    have a: "quantum_up (Suc n) q m = q * 2 ^ Suc j"
      using False j(2) by simp
    have b: "q * 2 ^ Suc j * 2 ^ 23 \<le> m"
    proof (cases "0 < j")
      case True
      with j(3) show ?thesis by (simp add: mult.assoc mult.left_commute)
    next
      case False
      with \<open>\<not> m < q * 2 ^ 24\<close> show ?thesis by simp
    qed
    have c: "Suc j < Suc n \<longrightarrow> m < q * 2 ^ Suc j * 2 ^ 24"
      using j(4) by (simp add: mult.assoc mult.left_commute)
    from j(1) a b c have "Suc j \<le> Suc n \<and> quantum_up (Suc n) q m = q * 2 ^ Suc j
      \<and> (0 < Suc j \<longrightarrow> q * 2 ^ Suc j * 2 ^ 23 \<le> m)
      \<and> (Suc j < Suc n \<longrightarrow> m < q * 2 ^ Suc j * 2 ^ 24)"
      by simp
    then show ?thesis by blast
  qed
qed

lemma quantum_down_shape: "\<exists>i\<le>n. quantum_down n q m = q / 2 ^ i"
proof (induction n arbitrary: q)
  case 0
  show ?case by simp
next
  case (Suc n)
  show ?case
  proof (cases "q * 2 ^ 23 \<le> m")
    case True
    then have "quantum_down (Suc n) q m = q / 2 ^ 0" by simp
    then show ?thesis by blast
  next
    case False
    from Suc.IH [of "q / 2"] obtain i where i: "i \<le> n"
      "quantum_down n (q / 2) m = q / 2 / 2 ^ i" by blast
    then have "Suc i \<le> Suc n \<and> quantum_down (Suc n) q m = q / 2 ^ Suc i"
      using False by simp
    then show ?thesis by blast
  qed
qed

lemma quantum_ge1:
  assumes "1 \<le> m"
  shows "\<exists>j\<le>127. quantum m = 2 ^ j / 2 ^ 23 \<and> (0 < j \<longrightarrow> 2 ^ j \<le> m)
            \<and> (j < 127 \<longrightarrow> m < 2 * 2 ^ j)"
proof -
  from quantum_up_shape [of 127 "1 / 2 ^ 23" m] obtain j where J: "j \<le> 127 \<and>
    quantum_up 127 (1 / 2 ^ 23) m = 1 / 2 ^ 23 * 2 ^ j \<and>
    (0 < j \<longrightarrow> 1 / 2 ^ 23 * 2 ^ j * 2 ^ 23 \<le> m) \<and>
    (j < 127 \<longrightarrow> m < 1 / 2 ^ 23 * 2 ^ j * 2 ^ 24)" ..
  from J have j: "j \<le> 127"
    "quantum_up 127 (1 / 2 ^ 23) m = 1 / 2 ^ 23 * 2 ^ j"
    "0 < j \<longrightarrow> 1 / 2 ^ 23 * 2 ^ j * 2 ^ 23 \<le> m"
    "j < 127 \<longrightarrow> m < 1 / 2 ^ 23 * 2 ^ j * 2 ^ 24"
    by (rule conjunct1, rule conjunct2 [THEN conjunct1],
        rule conjunct2 [THEN conjunct2, THEN conjunct1],
        rule conjunct2 [THEN conjunct2, THEN conjunct2])
  have "quantum m = quantum_up 127 (1 / 2 ^ 23) m"
    using assms by (simp only: quantum_def if_True)
  also have "\<dots> = 1 / 2 ^ 23 * 2 ^ j" by (rule j(2))
  finally have "quantum m = 2 ^ j / 2 ^ 23" by simp
  moreover have "0 < j \<longrightarrow> 2 ^ j \<le> m" using j(3) by simp
  moreover have "j < 127 \<longrightarrow> m < 2 * 2 ^ j" using j(4) by simp
  ultimately have "j \<le> 127 \<and> quantum m = 2 ^ j / 2 ^ 23 \<and> (0 < j \<longrightarrow> 2 ^ j \<le> m)
            \<and> (j < 127 \<longrightarrow> m < 2 * 2 ^ j)" using j(1) by (intro conjI)
  then show ?thesis by (rule exI)
qed

lemma quantum_lt1:
  assumes "m < 1"
  shows "\<exists>i\<le>126. quantum m = 1 / (2 ^ 23 * 2 ^ i)"
proof -
  from quantum_down_shape [of 126 "1 / 2 ^ 23" m] obtain i where i: "i \<le> 126"
    "quantum_down 126 (1 / 2 ^ 23) m = 1 / 2 ^ 23 / 2 ^ i" by blast
  have "\<not> 1 \<le> m" using assms by simp
  then have "quantum m = quantum_down 126 (1 / 2 ^ 23) m"
    by (simp only: quantum_def if_False)
  also have "\<dots> = 1 / 2 ^ 23 / 2 ^ i" by (rule i(2))
  finally have "quantum m = 1 / (2 ^ 23 * 2 ^ i)" by simp
  then show ?thesis using i(1) by blast
qed

lemma quantum_pos: "0 < quantum m"
proof (cases "1 \<le> m")
  case True
  from quantum_ge1 [OF True] obtain j where j: "quantum m = 2 ^ j / 2 ^ 23" by blast
  show ?thesis unfolding j by simp
next
  case False
  then have "m < 1" by simp
  from quantum_lt1 [OF this] obtain i where i: "quantum m = 1 / (2 ^ 23 * 2 ^ i)" by blast
  show ?thesis unfolding i by simp
qed

text \<open>
  A real is a binary32 value exactly when it is an integer multiple of the spacing at its
  own magnitude and lies below \<open>2 ^ 128\<close>.
\<close>

lemma exact32_iff:
  "exact32 v \<longleftrightarrow> (\<exists>z. v = of_int z * quantum \<bar>v\<bar>) \<and> \<bar>v\<bar> < 2 ^ 128"
proof
  assume "exact32 v"
  define r where "r = of_int (rne (v / quantum \<bar>v\<bar>)) * quantum \<bar>v\<bar>"
  from \<open>exact32 v\<close>
  have "(if r \<ge> 2 ^ 128 then PInf else if r \<le> - (2 ^ 128) then NInf else Fin r) = Fin v"
    unfolding exact32_def round32_def Let_def r_def .
  then have r: "r = v" and b: "\<not> r \<ge> 2 ^ 128" "\<not> r \<le> - (2 ^ 128)"
    by (simp_all split: if_splits)
  from b have B: "\<bar>v\<bar> < 2 ^ 128" unfolding r by linarith
  from r have "v = of_int (rne (v / quantum \<bar>v\<bar>)) * quantum \<bar>v\<bar>"
    by (simp only: r_def)
  then have A: "\<exists>z. v = of_int z * quantum \<bar>v\<bar>" by (rule exI)
  show "(\<exists>z. v = of_int z * quantum \<bar>v\<bar>) \<and> \<bar>v\<bar> < 2 ^ 128" by (rule conjI [OF A B])
next
  assume a: "(\<exists>z. v = of_int z * quantum \<bar>v\<bar>) \<and> \<bar>v\<bar> < 2 ^ 128"
  then have b: "\<bar>v\<bar> < 2 ^ 128" by (rule conjunct2)
  from a have "\<exists>z. v = of_int z * quantum \<bar>v\<bar>" by (rule conjunct1)
  then obtain z where z: "v = of_int z * quantum \<bar>v\<bar>" by (rule exE)
  have "v / quantum \<bar>v\<bar> = of_int z"
    using z quantum_pos [of "\<bar>v\<bar>"] by (simp add: field_simps)
  then have r: "of_int (rne (v / quantum \<bar>v\<bar>)) * quantum \<bar>v\<bar> = v"
    using z by (simp add: rne_of_int)
  from b have "\<not> v \<ge> 2 ^ 128" "\<not> v \<le> - (2 ^ 128)" by linarith+
  then show "exact32 v" unfolding exact32_def round32_def Let_def r by (simp only: if_False)
qed

lemma exact32_uminus: "exact32 (- v) \<longleftrightarrow> exact32 v"
proof -
  have "(\<exists>z. - v = of_int z * quantum \<bar>v\<bar>) \<longleftrightarrow> (\<exists>z. v = of_int z * quantum \<bar>v\<bar>)"
  proof
    assume "\<exists>z. - v = of_int z * quantum \<bar>v\<bar>"
    then obtain z where "- v = of_int z * quantum \<bar>v\<bar>" by blast
    then have "v = of_int (- z) * quantum \<bar>v\<bar>" by simp
    then show "\<exists>z. v = of_int z * quantum \<bar>v\<bar>" by blast
  next
    assume "\<exists>z. v = of_int z * quantum \<bar>v\<bar>"
    then obtain z where "v = of_int z * quantum \<bar>v\<bar>" by blast
    then have "- v = of_int (- z) * quantum \<bar>v\<bar>" by simp
    then show "\<exists>z. - v = of_int z * quantum \<bar>v\<bar>" by blast
  qed
  then show ?thesis by (simp add: exact32_iff)
qed

text \<open>
  Below \<open>2 ^ 28\<close> the spacing is at most 16, which divides 400, so subtracting 400 from
  a binary32 value above 400 gives a binary32 value again.
\<close>

lemma exact32_minus_400:
  assumes ex: "exact32 x" and gt: "400 < x" and lt: "x < 2 ^ 28"
  shows "exact32 (x - 400)"
proof -
  have ax: "\<bar>x\<bar> = x" using gt by simp
  from ex have "\<exists>z. x = of_int z * quantum \<bar>x\<bar>" by (simp add: exact32_iff)
  then obtain z where z: "x = of_int z * quantum x" unfolding ax ..
  have "1 \<le> x" using gt by simp
  from quantum_ge1 [OF this] obtain j where J: "j \<le> 127 \<and> quantum x = 2 ^ j / 2 ^ 23 \<and>
     (0 < j \<longrightarrow> 2 ^ j \<le> x) \<and> (j < 127 \<longrightarrow> x < 2 * 2 ^ j)" ..
  then have qx: "quantum x = 2 ^ j / 2 ^ 23" and jlo: "0 < j \<longrightarrow> 2 ^ j \<le> x"
    and jhi: "j < 127 \<longrightarrow> x < 2 * 2 ^ j"
    by simp_all
  have j27: "j \<le> 27"
  proof (rule ccontr)
    assume "\<not> j \<le> 27"
    then have "28 \<le> j" by simp
    then have "(2::real) ^ 28 \<le> 2 ^ j" by (intro power_increasing) simp_all
    moreover from \<open>28 \<le> j\<close> jlo have "2 ^ j \<le> x" by simp
    ultimately show False using lt by linarith
  qed
  then have xhi: "x < 2 * 2 ^ j" using jhi by simp
  have zx: "x * 2 ^ 23 = of_int z * 2 ^ j"
  proof -
    have "x * 2 ^ 23 = of_int z * (2 ^ j / 2 ^ 23) * 2 ^ 23" using z qx by simp
    then show ?thesis by simp
  qed
  have pos: "0 < x - 400" using gt by simp
  then have am: "\<bar>x - 400\<bar> = x - 400" by simp
  have bound: "\<bar>x - 400\<bar> < 2 ^ 128"
  proof -
    have "(2::real) ^ 28 \<le> 2 ^ 128" by (intro power_increasing) simp_all
    then show ?thesis using lt pos by linarith
  qed
  have "\<exists>z'. x - 400 = of_int z' * quantum (x - 400)"
  proof (cases "1 \<le> x - 400")
    case True
    from quantum_ge1 [OF True] obtain j' where J': "j' \<le> 127 \<and>
       quantum (x - 400) = 2 ^ j' / 2 ^ 23 \<and>
       (0 < j' \<longrightarrow> 2 ^ j' \<le> x - 400) \<and> (j' < 127 \<longrightarrow> x - 400 < 2 * 2 ^ j')" ..
    then have q': "quantum (x - 400) = 2 ^ j' / 2 ^ 23"
      and jlo': "0 < j' \<longrightarrow> 2 ^ j' \<le> x - 400"
      by simp_all
    have le: "j' \<le> j"
    proof (rule ccontr)
      assume "\<not> j' \<le> j"
      then have "Suc j \<le> j'" by simp
      then have "(2::real) ^ Suc j \<le> 2 ^ j'" by (intro power_increasing) simp_all
      moreover from \<open>Suc j \<le> j'\<close> jlo' have "2 ^ j' \<le> x - 400" by simp
      ultimately show False using xhi by simp
    qed
    with j27 have le27: "j' \<le> 27" by simp
    have p1: "(2::real) ^ (j - j') * 2 ^ j' = 2 ^ j"
      using le by (simp add: power_add [symmetric])
    have p2: "(2::real) ^ (27 - j') * 2 ^ j' = 2 ^ 27"
      using le27 by (simp only: power_add [symmetric] le_add_diff_inverse2)
    define z' where "z' = z * 2 ^ (j - j') - 25 * 2 ^ (27 - j')"
    have "of_int z' * (2::real) ^ j'
            = of_int z * (2 ^ (j - j') * 2 ^ j') - 25 * (2 ^ (27 - j') * 2 ^ j')"
      by (simp add: z'_def algebra_simps)
    also have "\<dots> = of_int z * 2 ^ j - 25 * 2 ^ 27" by (simp only: p1 p2)
    also have "\<dots> = (x - 400) * 2 ^ 23" using zx by simp
    finally have "of_int z' * (2 ^ j' / 2 ^ 23) = x - 400" by simp
    then have "x - 400 = of_int z' * quantum (x - 400)" by (simp only: q')
    then show ?thesis by (rule exI)
  next
    case False
    then have "x - 400 < 1" by simp
    from quantum_lt1 [OF this] obtain i where I: "i \<le> 126 \<and>
       quantum (x - 400) = 1 / (2 ^ 23 * 2 ^ i)" ..
    then have q': "quantum (x - 400) = 1 / (2 ^ 23 * 2 ^ i)" by simp
    define z' where "z' = (z * 2 ^ j - 25 * 2 ^ 27) * 2 ^ i"
    have "of_int z' = (of_int z * (2::real) ^ j - 25 * 2 ^ 27) * 2 ^ i"
      by (simp add: z'_def)
    also have "\<dots> = (x - 400) * 2 ^ 23 * 2 ^ i" using zx by simp
    finally have "of_int z' * (1 / (2 ^ 23 * 2 ^ i)) = x - 400" by simp
    then have "x - 400 = of_int z' * quantum (x - 400)" by (simp only: q')
    then show ?thesis by (rule exI)
  qed
  then have "(\<exists>z'. x - 400 = of_int z' * quantum \<bar>x - 400\<bar>) \<and> \<bar>x - 400\<bar> < 2 ^ 128"
    using bound by (simp only: am)
  then show ?thesis by (simp only: exact32_iff)
qed

lemma exact32_plus_400:
  assumes ex: "exact32 x" and lt: "x < - 400" and gt: "- (2 ^ 28) < x"
  shows "exact32 (x + 400)"
proof -
  have "exact32 (- x)" using ex by (simp only: exact32_uminus)
  moreover have "400 < - x" "- x < 2 ^ 28" using lt gt by simp_all
  ultimately have "exact32 (- x - 400)" by (rule exact32_minus_400)
  then have "exact32 (- (x + 400))" by simp
  then show ?thesis by (simp only: exact32_uminus)
qed

lemma no_rounding_straight:
  assumes ex: "exact32 x" and b: "\<bar>x\<bar> < 2 ^ 28"
  shows "no_rounding x 0"
proof -
  have e400: "exact32 400" "exact32 (- 400)"
    by (simp_all add: exact32_def round32_400)
  have lo: "x < 2 ^ 28" and hi: "- (2 ^ 28) < x" using b by linarith+
  have up: "exact32 (x - 400)" if "400 < x"
    using ex that lo by (rule exact32_minus_400)
  have dn: "exact32 (x + 400)" if "x < - 400"
    using ex that hi by (rule exact32_plus_400)
  show ?thesis using ex e400 up dn by (simp add: no_rounding_def)
qed

lemma exact_straight:
  "left_speed (setLinRotSpeeds_speeds x 0)
     = (if x > 400 then 400 else if x < - 400 then - 400 else x)"
  "right_speed (setLinRotSpeeds_speeds x 0)
     = (if x > 400 then 400 else if x < - 400 then - 400 else x)"
  by (simp_all add: setLinRotSpeeds_speeds_def Let_def)

text \<open>
  C2. As stated the claim fails on the code. The inputs 500 and -(50 + 2^-18) are
  binary32 values; line 70 rounds 550 + 2^-18 to 550, line 71 rounds 450 - 2^-18 to 450,
  the branch \<open>left_speed > 400\<close> shifts the right side to 300, which is in range and is
  not clamped, and the pair passed on is (400, 300): its difference -100 is not
  \<open>2 * rot\<close>. At \<open>(2^24, 1)\<close> the pair is (400, 401).
\<close>

theorem rotation_lost_by_rounding:
  "exact32 500 \<and> exact32 (- 13107201 / 262144)
 \<and> setLinRotSpeeds_binary32 (Fin 500) (Fin (- 13107201 / 262144)) = (Fin 400, Fin 300)
 \<and> (300::real) - 400 \<noteq> 2 * (- 13107201 / 262144)
 \<and> exact32 16777216 \<and> exact32 1
 \<and> setLinRotSpeeds_binary32 (Fin 16777216) (Fin 1) = (Fin 400, Fin 401)
 \<and> (401::real) - 400 \<noteq> 2 * 1"
  by (simp add: setLinRotSpeeds_binary32_def binary32_eval)

text \<open>
  C2, amended. Take finite binary32 inputs for which a branch body runs and no addition
  or subtraction on the executed path rounds, and leave out the inputs where the shifted
  side overflows on the side that the inner \<open>if\<close> does not test (both nominal values
  above 400 with \<open>rot > 0\<close>, or both below -400 with \<open>rot < 0\<close>). Then the pair passed
  to the driver satisfies \<open>right - left = 2 * rot\<close> when \<open>\<bar>rot\<bar> \<le> 400\<close>, and is
  (400, -400) or (-400, 400) when \<open>\<bar>rot\<bar> > 400\<close>, which is when the shifted side
  overflows on the tested side and is clamped.
\<close>

theorem rotation_preserved_without_rounding:
  assumes ex: "no_rounding x y"
    and fires: "x - y > 400 \<or> x + y > 400 \<or> x - y < - 400 \<or> x + y < - 400"
    and ns1: "\<not> (x - y > 400 \<and> y > 0)"
    and ns2: "\<not> (x - y < - 400 \<and> y < 0)"
  shows "\<exists>l r. setLinRotSpeeds_binary32 (Fin x) (Fin y) = (Fin l, Fin r)
            \<and> (if \<bar>y\<bar> > 400 then (l = 400 \<and> r = - 400) \<or> (l = - 400 \<and> r = 400)
                else r - l = 2 * y)"
  using binary32_agrees_without_rounding [OF ex] exact_rotation_or_limits [OF fires ns1 ns2]
  by blast

theorem rotation_preserved_without_rounding_witness:
  "no_rounding 500 (- 50)
 \<and> (\<exists>l r. setLinRotSpeeds_binary32 (Fin 500) (Fin (- 50)) = (Fin l, Fin r)
            \<and> r - l = 2 * (- 50))
 \<and> no_rounding 0 500
 \<and> (\<exists>l r. setLinRotSpeeds_binary32 (Fin 0) (Fin 500) = (Fin l, Fin r)
            \<and> ((l = 400 \<and> r = - 400) \<or> (l = - 400 \<and> r = 400)))"
proof -
  have n1: "no_rounding 500 (- 50)" and n2: "no_rounding 0 500"
    by (simp_all add: no_rounding_def binary32_eval)
  have w1: "\<exists>l r. setLinRotSpeeds_binary32 (Fin 500) (Fin (- 50)) = (Fin l, Fin r)
            \<and> (if \<bar>- 50 :: real\<bar> > 400 then (l = 400 \<and> r = - 400) \<or> (l = - 400 \<and> r = 400)
                else r - l = 2 * (- 50))"
    by (rule rotation_preserved_without_rounding [OF n1]) simp_all
  have w2: "\<exists>l r. setLinRotSpeeds_binary32 (Fin 0) (Fin 500) = (Fin l, Fin r)
            \<and> (if \<bar>500 :: real\<bar> > 400 then (l = 400 \<and> r = - 400) \<or> (l = - 400 \<and> r = 400)
                else r - l = 2 * 500)"
    by (rule rotation_preserved_without_rounding [OF n2]) simp_all
  from w1 have w1': "\<exists>l r. setLinRotSpeeds_binary32 (Fin 500) (Fin (- 50)) = (Fin l, Fin r)
            \<and> r - l = 2 * (- 50)" by simp
  from w2 have w2': "\<exists>l r. setLinRotSpeeds_binary32 (Fin 0) (Fin 500) = (Fin l, Fin r)
            \<and> ((l = 400 \<and> r = - 400) \<or> (l = - 400 \<and> r = 400))" by simp
  show ?thesis using n1 w1' n2 w2' by (intro conjI)
qed

text \<open>
  C10. As stated the claim fails on the code. 268436480 is a binary32 value (2^28 + 1024,
  where the spacing is 32); with \<open>rot = 0\<close> both nominal values are 268436480, line 75
  rounds \<open>left_speed - 400\<close> = 268436080 to 268436096, and the pair passed to the driver
  is (400, 384).
\<close>

theorem straight_bends_by_rounding:
  "exact32 268436480
 \<and> setLinRotSpeeds_binary32 (Fin 268436480) (Fin 0) = (Fin 400, Fin 384)
 \<and> fst (setLinRotSpeeds_binary32 (Fin 268436480) (Fin 0))
     \<noteq> snd (setLinRotSpeeds_binary32 (Fin 268436480) (Fin 0))"
  by (simp add: setLinRotSpeeds_binary32_def binary32_eval)

text \<open>
  C10, amended. For every finite binary32 value \<open>lin\<close> with \<open>\<bar>lin\<bar> < 2^28\<close> and
  \<open>rot = 0\<close> the two speeds passed to the driver are equal: both are \<open>lin\<close> inside the
  range, both 400 above it, both -400 below it.
\<close>

theorem straight_stays_straight_below_2_28:
  assumes "exact32 x" and "\<bar>x\<bar> < 2 ^ 28"
  shows "fst (setLinRotSpeeds_binary32 (Fin x) (Fin 0))
           = snd (setLinRotSpeeds_binary32 (Fin x) (Fin 0))
       \<and> snd (setLinRotSpeeds_binary32 (Fin x) (Fin 0))
           = Fin (if x > 400 then 400 else if x < - 400 then - 400 else x)"
proof -
  have "no_rounding x 0" using assms by (rule no_rounding_straight)
  then have "setLinRotSpeeds_binary32 (Fin x) (Fin 0) =
           (Fin (left_speed (setLinRotSpeeds_speeds x 0)),
            Fin (right_speed (setLinRotSpeeds_speeds x 0)))"
    by (rule binary32_agrees_without_rounding)
  then show ?thesis by (simp only: exact_straight fst_conv snd_conv simp_thms)
qed

theorem straight_stays_straight_below_2_28_witness:
  "exact32 268435440 \<and> \<bar>268435440 :: real\<bar> < 2 ^ 28
 \<and> fst (setLinRotSpeeds_binary32 (Fin 268435440) (Fin 0)) = Fin 400
 \<and> snd (setLinRotSpeeds_binary32 (Fin 268435440) (Fin 0)) = Fin 400
 \<and> exact32 (- 2001 / 2) \<and> \<bar>- 2001 / 2 :: real\<bar> < 2 ^ 28
 \<and> fst (setLinRotSpeeds_binary32 (Fin (- 2001 / 2)) (Fin 0)) = Fin (- 400)
 \<and> snd (setLinRotSpeeds_binary32 (Fin (- 2001 / 2)) (Fin 0)) = Fin (- 400)"
proof -
  have e1: "exact32 268435440" and e2: "exact32 (- 2001 / 2)"
    by (simp_all add: binary32_eval)
  have b1: "\<bar>268435440 :: real\<bar> < 2 ^ 28" and b2: "\<bar>- 2001 / 2 :: real\<bar> < 2 ^ 28"
    by simp_all
  show ?thesis
    using straight_stays_straight_below_2_28 [OF e1 b1]
      straight_stays_straight_below_2_28 [OF e2 b2] e1 e2
    by simp
qed

end
